theory Spec2Isabelle
  imports Main
begin

section \<open>JavaScript values\<close>

subsection \<open>Strings\<close>

text \<open>
  A JavaScript string is a sequence of UTF-16 code units; \<open>length\<close>, \<open>includes\<close> and
  property keys all work on code units. A code unit is a number below \<open>65536\<close>.
  \<open>ascii\<close> writes a Basic Latin literal of the source as such a sequence.
\<close>

type_synonym jsstring = "nat list"

definition ascii :: "string \<Rightarrow> jsstring" where
  "ascii cs = map of_char cs"

text \<open>
  \<open>String.prototype.includes\<close> (a test for a contiguous run of code units),
  \<open>Array.prototype.join\<close>, and \<open>filter(Boolean)\<close> on a list of strings and nulls, which drops
  \<open>null\<close> and the empty string.
\<close>

fun starts_with :: "'a list \<Rightarrow> 'a list \<Rightarrow> bool" where
  "starts_with hay [] = True"
| "starts_with [] (n # ns) = False"
| "starts_with (h # hs) (n # ns) = (h = n \<and> starts_with hs ns)"

fun String_includes :: "'a list \<Rightarrow> 'a list \<Rightarrow> bool" where
  "String_includes [] needle = (needle = [])"
| "String_includes (h # hs) needle = (starts_with (h # hs) needle \<or> String_includes hs needle)"

fun join :: "jsstring \<Rightarrow> jsstring list \<Rightarrow> jsstring" where
  "join sep [] = []"
| "join sep [x] = x"
| "join sep (x # y # ys) = x @ sep @ join sep (y # ys)"

definition filter_Boolean :: "jsstring option list \<Rightarrow> jsstring list" where
  "filter_Boolean xs =
     concat (map (\<lambda>x. case x of None \<Rightarrow> [] | Some str \<Rightarrow> if str = [] then [] else [str]) xs)"

text \<open>
  The decimal numeral that a template literal writes for a non-negative integer (below
  \<open>10^21\<close>, where JavaScript changes to exponent notation).
\<close>

fun number_to_string :: "nat \<Rightarrow> jsstring" where
  "number_to_string n =
     (if n < 10 then [48 + n] else number_to_string (n div 10) @ [48 + n mod 10])"

declare number_to_string.simps [simp del]

subsection \<open>Lower case\<close>

text \<open>
  \<open>String.prototype.toLowerCase\<close> reads the string as code points (a leading surrogate
  followed by a trailing surrogate is one code point, any other code unit stands for
  itself), replaces every code point by its lowercase mapping from the Unicode Character
  Database, and writes the result back as UTF-16. The mapping of a code point does not
  depend on its neighbours, with one exception that holds in every locale (the
  \<open>Final_Sigma\<close> rule of \<open>SpecialCasing.txt\<close>): capital sigma, U+03A3, becomes final sigma
  U+03C2 rather than U+03C3 when a cased letter precedes it, with nothing but
  case-ignorable characters in between, and no cased letter follows it in the same way.

  The database is data of the runtime, so it is a parameter: the lowercase mapping and
  the two properties \<open>Cased\<close> and \<open>Case_Ignorable\<close>. \<open>preceding\<close> holds the code points
  already passed, nearest first.
\<close>

record ucd =
  lower_mapping :: "nat \<Rightarrow> nat list"
  cased :: "nat \<Rightarrow> bool"
  case_ignorable :: "nat \<Rightarrow> bool"

definition is_high :: "nat \<Rightarrow> bool" where
  "is_high u = (0xD800 \<le> u \<and> u \<le> 0xDBFF)"

definition is_low :: "nat \<Rightarrow> bool" where
  "is_low u = (0xDC00 \<le> u \<and> u \<le> 0xDFFF)"

fun code_points :: "jsstring \<Rightarrow> nat list" where
  "code_points [] = []"
| "code_points [u] = [u]"
| "code_points (u # v # rest) =
     (if is_high u \<and> is_low v
      then (0x10000 + (u - 0xD800) * 0x400 + (v - 0xDC00)) # code_points rest
      else u # code_points (v # rest))"

definition utf16 :: "nat \<Rightarrow> jsstring" where
  "utf16 cp =
     (if cp < 0x10000 then [cp]
      else [0xD800 + (cp - 0x10000) div 0x400, 0xDC00 + (cp - 0x10000) mod 0x400])"

definition code_points_to_string :: "nat list \<Rightarrow> jsstring" where
  "code_points_to_string cps = concat (map utf16 cps)"

fun cased_then_ignorables :: "ucd \<Rightarrow> nat list \<Rightarrow> bool" where
  "cased_then_ignorables u [] = False"
| "cased_then_ignorables u (c # cs) =
     (if cased u c then True
      else if case_ignorable u c then cased_then_ignorables u cs
      else False)"

definition final_sigma :: "ucd \<Rightarrow> nat list \<Rightarrow> nat list \<Rightarrow> bool" where
  "final_sigma u preceding following =
     (cased_then_ignorables u preceding \<and> \<not> cased_then_ignorables u following)"

fun to_lowercase :: "ucd \<Rightarrow> nat list \<Rightarrow> nat list \<Rightarrow> nat list" where
  "to_lowercase u preceding [] = []"
| "to_lowercase u preceding (c # rest) =
     (if c = 0x3A3 \<and> final_sigma u preceding rest then [0x3C2] else lower_mapping u c)
     @ to_lowercase u (c # preceding) rest"

definition toLowerCase :: "ucd \<Rightarrow> jsstring \<Rightarrow> jsstring" where
  "toLowerCase u str = code_points_to_string (to_lowercase u [] (code_points str))"

subsection \<open>Objects\<close>

text \<open>
  The own properties of an ordinary object are kept in creation order, as an association
  list; assigning to an existing property keeps its place. \<open>Object.entries\<close> does not list
  them in that order: keys that are array indices (the canonical decimal form of an
  integer from \<open>0\<close> to \<open>2^32 - 2\<close>) come first, in ascending numeric order, and the other
  string keys follow in creation order.
\<close>

type_synonym 'v js_object = "(jsstring \<times> 'v) list"

fun obj_set :: "'v js_object \<Rightarrow> jsstring \<Rightarrow> 'v \<Rightarrow> 'v js_object" where
  "obj_set [] k v = [(k, v)]"
| "obj_set ((k', v') # ps) k v = (if k' = k then (k, v) # ps else (k', v') # obj_set ps k v)"

definition is_digit :: "nat \<Rightarrow> bool" where
  "is_digit u = (48 \<le> u \<and> u \<le> 57)"

definition digits_value :: "jsstring \<Rightarrow> nat" where
  "digits_value k = foldl (\<lambda>acc u. 10 * acc + (u - 48)) 0 k"

definition is_array_index :: "jsstring \<Rightarrow> bool" where
  "is_array_index k =
     (k \<noteq> [] \<and> list_all is_digit k \<and> (hd k \<noteq> 48 \<or> length k = 1)
      \<and> digits_value k < 2 ^ 32 - 1)"

definition object_entries :: "'v js_object \<Rightarrow> (jsstring \<times> 'v) list" where
  "object_entries obj =
     sort_key (\<lambda>p. digits_value (fst p)) (filter (\<lambda>p. is_array_index (fst p)) obj)
     @ filter (\<lambda>p. \<not> is_array_index (fst p)) obj"

text \<open>
  An object literal \<open>{}\<close> inherits from \<open>Object.prototype\<close>: reading a property the object
  does not own finds the inherited member, if \<open>Object.prototype\<close> has one of that name.
  These are its property names (ECMAScript, with Annex B). Each is a function, except
  \<open>__proto__\<close>, which reads as the prototype object itself.
\<close>

definition object_prototype_keys :: "jsstring list" where
  "object_prototype_keys = map ascii
     [''constructor'', ''__defineGetter__'', ''__defineSetter__'', ''hasOwnProperty'',
      ''__lookupGetter__'', ''__lookupSetter__'', ''isPrototypeOf'', ''propertyIsEnumerable'',
      ''toString'', ''valueOf'', ''__proto__'', ''toLocaleString'']"

text \<open>
  Reading \<open>obj[k]\<close> on such an object: the own property if there is one, else the
  inherited member, else \<open>undefined\<close>. An object and a function are truthy,
  \<open>undefined\<close> is not. The map holds the own properties.
\<close>

datatype 'v property = Own 'v | Inherited | Undefined

definition object_get :: "(jsstring \<rightharpoonup> 'v) \<Rightarrow> jsstring \<Rightarrow> 'v property" where
  "object_get obj k =
     (case obj k of
        Some v \<Rightarrow> Own v
      | None \<Rightarrow> if k \<in> set object_prototype_keys then Inherited else Undefined)"

definition truthy :: "'v property \<Rightarrow> bool" where
  "truthy p = (p \<noteq> Undefined)"

datatype error = TypeError

subsection \<open>Arrays\<close>

text \<open>
  \<open>Array.prototype.sort\<close> is stable (ECMAScript 2019), and with a consistent comparator its
  result is the one stable arrangement in comparator order, whatever algorithm the engine
  runs. \<open>array_sort\<close> computes it by stable insertion; the comparator returns a number,
  here always an integer.
\<close>

fun insert_sorted :: "('a \<Rightarrow> 'a \<Rightarrow> int) \<Rightarrow> 'a \<Rightarrow> 'a list \<Rightarrow> 'a list" where
  "insert_sorted cmp x [] = [x]"
| "insert_sorted cmp x (y # ys) =
     (if cmp x y \<le> 0 then x # y # ys else y # insert_sorted cmp x ys)"

definition array_sort :: "('a \<Rightarrow> 'a \<Rightarrow> int) \<Rightarrow> 'a list \<Rightarrow> 'a list" where
  "array_sort cmp xs = foldr (insert_sorted cmp) xs []"

text \<open>
  Arrays and \<open>Set\<close> objects are reference values, and two of the properties below speak of
  identity and of mutation. Where that matters a function runs on a store: arrays and sets
  live at addresses, an array argument is an address, and the function returns the store
  it leaves behind together with the address of its result. Every array address handed
  out so far lies below \<open>next_array\<close>. \<open>filter\<close> and the spread \<open>[...xs]\<close> allocate a new
  array; \<open>sort\<close> rearranges the array it is called on, in place, and returns that same
  array; \<open>Set.prototype.has\<close> only reads.
\<close>

record 'a heap =
  arrays :: "nat \<Rightarrow> 'a list"
  sets :: "nat \<Rightarrow> jsstring set"
  next_array :: nat

definition new_array :: "'a list \<Rightarrow> 'a heap \<Rightarrow> 'a heap \<times> nat" where
  "new_array xs h =
     (h\<lparr>arrays := (arrays h)(next_array h := xs), next_array := Suc (next_array h)\<rparr>,
      next_array h)"

definition Array_filter :: "('a \<Rightarrow> bool) \<Rightarrow> 'a heap \<Rightarrow> nat \<Rightarrow> 'a heap \<times> nat" where
  "Array_filter pred h r = new_array (filter pred (arrays h r)) h"

definition spread :: "'a heap \<Rightarrow> nat \<Rightarrow> 'a heap \<times> nat" where
  "spread h r = new_array (arrays h r) h"

definition Array_sort :: "('a \<Rightarrow> 'a \<Rightarrow> int) \<Rightarrow> 'a heap \<Rightarrow> nat \<Rightarrow> 'a heap \<times> nat" where
  "Array_sort cmp h r = (h\<lparr>arrays := (arrays h)(r := array_sort cmp (arrays h r))\<rparr>, r)"

definition Set_has :: "'a heap \<Rightarrow> nat \<Rightarrow> jsstring \<Rightarrow> bool" where
  "Set_has h r x = (x \<in> sets h r)"

subsection \<open>Promises\<close>

text \<open>
  A promise that has settled is fulfilled with a value or rejected with a reason.
  \<open>p.then(f)\<close> runs \<open>f\<close> when \<open>p\<close> is fulfilled and passes a rejection on;
  \<open>p.catch(g)\<close> runs \<open>g\<close> on a rejection and passes a fulfilment on. The handlers may
  change the state \<open>'s\<close> of the component.
\<close>

datatype 'a settled = Fulfilled 'a | Rejected jsstring

definition promise_then ::
  "('a \<Rightarrow> 's \<Rightarrow> 'b settled \<times> 's) \<Rightarrow> 'a settled \<times> 's \<Rightarrow> 'b settled \<times> 's" where
  "promise_then on_fulfilled p =
     (case p of
        (Fulfilled v, st) \<Rightarrow> on_fulfilled v st
      | (Rejected reason, st) \<Rightarrow> (Rejected reason, st))"

definition promise_catch ::
  "(jsstring \<Rightarrow> 's \<Rightarrow> 'a settled \<times> 's) \<Rightarrow> 'a settled \<times> 's \<Rightarrow> 'a settled \<times> 's" where
  "promise_catch on_rejected p =
     (case p of
        (Fulfilled v, st) \<Rightarrow> (Fulfilled v, st)
      | (Rejected reason, st) \<Rightarrow> on_rejected reason st)"

section \<open>The data model\<close>

text \<open>
  Modelled from the spec: the \<open>Session\<close> type (\<open>frontend/src/types\<close> is not among the
  sources). The fields are the ones \<open>helpers.ts\<close> reads; the spec's data model and the
  test factory \<open>makeSession\<close> give their types. A field the helpers guard with
  \<open>||\<close> or \<open>filter(Boolean)\<close> is an option, \<open>None\<close> standing for \<open>null\<close>. The record is
  extensible: the functions below take any \<open>session_scheme\<close>, so the counters and
  display strings of the full type ride along in the extension.
\<close>

record session =
  id_s :: jsstring
  summary :: "jsstring option"
  repository :: "jsstring option"
  branch :: "jsstring option"
  cwd :: "jsstring option"
  group_s :: "jsstring option"
  intent :: "jsstring option"
  mcp_servers :: "jsstring list option"
  updated_at :: jsstring

text \<open>
  Modelled from the spec: \<open>VersionInfo\<close> (same missing file) is
  \<open>{current, latest, update_available}\<close>, the latest version nullable.
\<close>

record VersionInfo =
  current :: jsstring
  latest :: "jsstring option"
  update_available :: bool

text \<open>
  Modelled from the spec: the value of \<open>useDisconnect()\<close> (\<open>hooks/useDisconnect\<close> is not
  among the sources) is the connectivity state, a \<open>disconnected\<close> flag and the countdown
  \<open>retrySeconds\<close>, a non-negative integer.
\<close>

record disconnect_state =
  disconnected :: bool
  retrySeconds :: nat

section \<open>helpers.ts\<close>

subsection \<open>groupSessions\<close>

text \<open>
  \<open>groups\<close> is an object literal. The loop body is \<open>(groups[g] ??= []).push(s)\<close> with
  \<open>g = s.group || "General"\<close>: when \<open>groups\<close> owns \<open>g\<close>, the session is appended to that
  array. When it does not, but \<open>Object.prototype\<close> has a member of that name, the read
  finds the inherited member; that value is not nullish, so \<open>??=\<close> assigns nothing, and
  calling its missing \<open>push\<close> throws a \<open>TypeError\<close>. Otherwise the property is created,
  last in creation order, with the array \<open>[s]\<close>. The result is
  \<open>Object.entries(groups).sort((a, b) => b[1].length - a[1].length)\<close>.
\<close>

definition General :: jsstring where
  "General = ascii ''General''"

definition group_key :: "'a session_scheme \<Rightarrow> jsstring" where
  "group_key s = (case group_s s of None \<Rightarrow> General | Some g \<Rightarrow> if g = [] then General else g)"

definition groups_push ::
  "'a session_scheme list js_object \<Rightarrow> jsstring \<Rightarrow> 'a session_scheme
    \<Rightarrow> error + 'a session_scheme list js_object" where
  "groups_push groups g s =
     (case map_of groups g of
        Some arr \<Rightarrow> Inr (obj_set groups g (arr @ [s]))
      | None \<Rightarrow>
          if g \<in> set object_prototype_keys then Inl TypeError
          else Inr (obj_set groups g [s]))"

fun group_loop ::
  "'a session_scheme list \<Rightarrow> 'a session_scheme list js_object
    \<Rightarrow> error + 'a session_scheme list js_object" where
  "group_loop [] groups = Inr groups"
| "group_loop (s # rest) groups =
     (case groups_push groups (group_key s) s of
        Inl e \<Rightarrow> Inl e
      | Inr groups' \<Rightarrow> group_loop rest groups')"

definition groupSessions ::
  "'a session_scheme list \<Rightarrow> error + (jsstring \<times> 'a session_scheme list) list" where
  "groupSessions sessions =
     (case group_loop sessions [] of
        Inl e \<Rightarrow> Inl e
      | Inr groups \<Rightarrow>
          Inr (array_sort (\<lambda>a b. int (length (snd b)) - int (length (snd a)))
                 (object_entries groups)))"

subsection \<open>filterSessions\<close>

text \<open>
  The haystack of a session: the six fields and the MCP server names
  (\<open>s.mcp_servers || []\<close>), the falsy ones dropped, joined by one space, in lower case.
  With a falsy filter the function returns its argument; otherwise the array that
  \<open>sessions.filter\<close> allocates.
\<close>

definition searched_fields :: "'a session_scheme \<Rightarrow> jsstring option list" where
  "searched_fields s =
     [summary s, repository s, branch s, cwd s, group_s s, intent s]
     @ map Some (case mcp_servers s of None \<Rightarrow> [] | Some servers \<Rightarrow> servers)"

definition hay :: "ucd \<Rightarrow> 'a session_scheme \<Rightarrow> jsstring" where
  "hay u s = toLowerCase u (join (ascii '' '') (filter_Boolean (searched_fields s)))"

definition filterSessions ::
  "ucd \<Rightarrow> 'a session_scheme heap \<Rightarrow> nat \<Rightarrow> jsstring \<Rightarrow> 'a session_scheme heap \<times> nat" where
  "filterSessions u h sessions flt =
     (if flt = [] then (h, sessions)
      else let lower = toLowerCase u flt
           in Array_filter (\<lambda>s. String_includes (hay u s) lower) h sessions)"

subsection \<open>splitActivePrevious\<close>

text \<open>
  \<open>processes\<close> is a \<open>Record<string, ProcessInfo>\<close>, a plain object: the map holds its
  entries (its own properties, each a process object), and the test \<open>if (processes[s.id])\<close>
  reads through the prototype chain like any property read. \<open>ProcessInfo\<close> stays a type
  variable, since no field of it is read.

  \<open>Date.now()\<close> and the parser behind \<open>new Date(str).getTime()\<close> belong to the runtime
  and are parameters: \<open>now\<close> in milliseconds, and \<open>getTime\<close>, which is \<open>None\<close> where
  JavaScript gives \<open>NaN\<close> (an unparseable date). Time values are integers of magnitude
  below \<open>2^53\<close>, so the arithmetic on doubles is exact and \<open>int\<close> models it. Every
  comparison with \<open>NaN\<close> is false.
\<close>

record 'a split_result =
  active :: "'a session_scheme list"
  previous :: "'a session_scheme list"

definition nan_ge :: "int option \<Rightarrow> int \<Rightarrow> bool" where
  "nan_ge t bound = (case t of None \<Rightarrow> False | Some v \<Rightarrow> v \<ge> bound)"

fun split_loop ::
  "(jsstring \<Rightarrow> int option) \<Rightarrow> (jsstring \<rightharpoonup> 'p) \<Rightarrow> int \<Rightarrow> 'a session_scheme list
    \<Rightarrow> 'a split_result \<Rightarrow> 'a split_result" where
  "split_loop getTime processes fiveDaysAgo [] acc = acc"
| "split_loop getTime processes fiveDaysAgo (s # rest) acc =
     split_loop getTime processes fiveDaysAgo rest
       (if truthy (object_get processes (id_s s)) then acc\<lparr>active := active acc @ [s]\<rparr>
        else if nan_ge (getTime (updated_at s)) fiveDaysAgo
          then acc\<lparr>previous := previous acc @ [s]\<rparr>
        else acc)"

definition splitActivePrevious ::
  "(jsstring \<Rightarrow> int option) \<Rightarrow> int \<Rightarrow> 'a session_scheme list \<Rightarrow> (jsstring \<rightharpoonup> 'p)
    \<Rightarrow> 'a split_result" where
  "splitActivePrevious getTime now sessions processes =
     (let fiveDaysAgo = now - 5 * 24 * 60 * 60 * 1000
      in split_loop getTime processes fiveDaysAgo sessions \<lparr>active = [], previous = []\<rparr>)"

subsection \<open>sortStarredFirst\<close>

text \<open>
  \<open>[...sessions].sort((a, b) => (starred.has(b.id) ? 1 : 0) - (starred.has(a.id) ? 1 : 0))\<close>:
  the sort runs on the copy the spread allocates.
\<close>

definition sortStarredFirst ::
  "'a session_scheme heap \<Rightarrow> nat \<Rightarrow> nat \<Rightarrow> 'a session_scheme heap \<times> nat" where
  "sortStarredFirst h sessions starred =
     (case spread h sessions of
        (h1, copy) \<Rightarrow>
          Array_sort (\<lambda>a b. (if Set_has h1 starred (id_s b) then 1 else 0)
                            - (if Set_has h1 starred (id_s a) then 1 else 0)) h1 copy)"

section \<open>useVersion.ts\<close>

text \<open>
  The hook is event driven: its code runs when it is mounted, when a promise settles
  and when a timer fires. The model is a state and one function per callback.
  The state holds the two \<open>useState\<close> cells (\<open>versionInfo\<close>, \<open>updating\<close>), the
  closure variable \<open>mounted\<close> of the effect, and what the update poll leaves in the
  browser: whether its interval timer is live (\<open>polling\<close>), the variable \<open>start\<close>, the
  readiness requests still unanswered and the number issued so far, and whether
  \<open>location.reload()\<close> has been called.

  \<open>fetchVersion\<close> and \<open>triggerUpdate\<close> come from \<open>../api\<close>, which is not among the sources;
  each enters as the way its promise settles.
\<close>

record hook_state =
  versionInfo :: VersionInfo
  updating :: bool
  mounted :: bool
  polling :: bool
  start :: int
  in_flight :: nat
  requests :: nat
  reloaded :: bool

text \<open>
  The state at the first render.
\<close>

definition useVersion :: "jsstring \<Rightarrow> hook_state" where
  "useVersion initialVersion =
     \<lparr>versionInfo = \<lparr>current = initialVersion, latest = None, update_available = False\<rparr>,
      updating = False, mounted = True, polling = False, start = 0, in_flight = 0,
      requests = 0, reloaded = False\<rparr>"

definition setVersionInfo :: "VersionInfo \<Rightarrow> hook_state \<Rightarrow> hook_state" where
  "setVersionInfo info st = st\<lparr>versionInfo := info\<rparr>"

definition setUpdating :: "bool \<Rightarrow> hook_state \<Rightarrow> hook_state" where
  "setUpdating b st = st\<lparr>updating := b\<rparr>"

text \<open>
  \<open>doCheck\<close> is
  \<open>fetchVersion().then((info) => { if (mounted) setVersionInfo(info); }).catch(() => {})\<close>;
  the cleanup of the effect clears \<open>mounted\<close>.
\<close>

definition doCheck :: "VersionInfo settled \<Rightarrow> hook_state \<Rightarrow> unit settled \<times> hook_state" where
  "doCheck fetchVersion st =
     promise_catch (\<lambda>reason st'. (Fulfilled (), st'))
       (promise_then (\<lambda>info st'. (Fulfilled (), if mounted st' then setVersionInfo info st' else st'))
          (fetchVersion, st))"

definition unmount :: "hook_state \<Rightarrow> hook_state" where
  "unmount st = st\<lparr>mounted := False\<rparr>"

text \<open>
  \<open>doUpdate\<close> sets the flag and awaits \<open>triggerUpdate()\<close>. If that promise is rejected the
  \<open>await\<close> throws and the rest of the function does not run: the promise of \<open>doUpdate\<close>
  is rejected. Otherwise it reads the clock into \<open>start\<close> and starts the interval timer.

  Each firing of the timer (\<open>Tick now\<close>, with the reading of \<open>Date.now()\<close>) runs the
  callback up to its \<open>await\<close>: past the deadline it clears the timer and the flag,
  otherwise it issues a readiness request. When a request settles (\<open>Response\<close>) the
  callback resumes: on \<open>r.ok\<close> it clears the timer and reloads the page; a response that is
  not ok changes nothing, and a network error is caught. A cleared timer does not fire, and
  after the reload nothing of the page runs.
\<close>

datatype response = Ok | NotOk | NetworkError

datatype event = Tick int | Response response

definition doUpdate :: "unit settled \<Rightarrow> int \<Rightarrow> hook_state \<Rightarrow> unit settled \<times> hook_state" where
  "doUpdate triggerUpdate now st =
     (let st1 = setUpdating True st
      in case triggerUpdate of
           Rejected reason \<Rightarrow> (Rejected reason, st1)
         | Fulfilled u \<Rightarrow> (Fulfilled (), st1\<lparr>start := now, polling := True\<rparr>))"

definition poll_tick :: "int \<Rightarrow> hook_state \<Rightarrow> hook_state" where
  "poll_tick now st =
     (if now - start st > 90000 then setUpdating False (st\<lparr>polling := False\<rparr>)
      else st\<lparr>in_flight := Suc (in_flight st), requests := Suc (requests st)\<rparr>)"

definition poll_response :: "response \<Rightarrow> hook_state \<Rightarrow> hook_state" where
  "poll_response r st =
     (case r of
        Ok \<Rightarrow> st\<lparr>polling := False, reloaded := True\<rparr>
      | NotOk \<Rightarrow> st
      | NetworkError \<Rightarrow> st)"

definition step :: "hook_state \<Rightarrow> event \<Rightarrow> hook_state" where
  "step st ev =
     (if reloaded st then st
      else case ev of
             Tick now \<Rightarrow> if polling st then poll_tick now st else st
           | Response r \<Rightarrow>
               if in_flight st = 0 then st
               else poll_response r (st\<lparr>in_flight := in_flight st - 1\<rparr>))"

definition run :: "event list \<Rightarrow> hook_state \<Rightarrow> hook_state" where
  "run evs st = foldl step st evs"

section \<open>DisconnectOverlay.tsx\<close>

text \<open>
  What the component renders is a tree of elements and text. An element has a tag, its
  attributes and its children. \<open>None\<close> is \<open>null\<close>: nothing is rendered.
\<close>

datatype node = Element jsstring "(jsstring \<times> jsstring) list" "node list" | Text jsstring

definition retry_text :: "nat \<Rightarrow> jsstring" where
  "retry_text n =
     (if n > 0 then [0x21BB] @ ascii '' Retrying in '' @ number_to_string n @ ascii ''s'' @ [0x2026]
      else ascii ''Retrying now'' @ [0x2026])"

definition div_class :: "string \<Rightarrow> node list \<Rightarrow> node" where
  "div_class cls children = Element (ascii ''div'') [(ascii ''className'', ascii cls)] children"

definition DisconnectOverlay :: "disconnect_state \<Rightarrow> node option" where
  "DisconnectOverlay st =
     (if \<not> disconnected st then None
      else Some
        (Element (ascii ''div'')
           [(ascii ''className'', ascii ''disconnect-overlay''), (ascii ''style'', ascii ''display: flex'')]
           [div_class ''disconnect-popover''
              [div_class ''disconnect-icon'' [Text [0x26A0, 0xFE0F]],
               div_class ''disconnect-title'' [Text (ascii ''Server Not Responding'')],
               div_class ''disconnect-detail''
                 [Element (ascii ''strong'') [] [Text (ascii ''What was detected:'')],
                  Text (ascii '' The dashboard could not reach the server.'')],
               div_class ''disconnect-retry'' [Text (retry_text (retrySeconds st))]]]))"

section \<open>Vocabulary of the statements\<close>

text \<open>
  For the order of the groups: the distinct elements of a list in order of first
  occurrence, the order in which \<open>Object.entries\<close> lists keys that were created in a given
  order, and the object that the loop of \<open>groupSessions\<close> has built once it has seen a
  given list of sessions.
\<close>

definition first_seen :: "'a list \<Rightarrow> 'a list" where
  "first_seen xs = rev (remdups (rev xs))"

definition entries_order :: "jsstring list \<Rightarrow> jsstring list" where
  "entries_order ks =
     sort_key digits_value (filter is_array_index ks) @ filter (\<lambda>k. \<not> is_array_index k) ks"

definition grouped ::
  "'a session_scheme list \<Rightarrow> jsstring list \<Rightarrow> 'a session_scheme list js_object" where
  "grouped seen ks = map (\<lambda>k. (k, filter (\<lambda>s. group_key s = k) seen)) ks"

text \<open>
  For the update poll: the state a timeout leaves has no live timer, the flag cleared
  and the page not reloaded.
\<close>

definition quiet :: "hook_state \<Rightarrow> bool" where
  "quiet st = (\<not> polling st \<and> \<not> updating st \<and> \<not> reloaded st)"

text \<open>
  The timer is started with \<open>setInterval(..., 2000)\<close>: on an ideal clock its \<open>k\<close>-th firing
  comes \<open>2000 * k\<close> milliseconds after \<open>start\<close>. \<open>failing_polls t0 k\<close> is the first \<open>k\<close>
  firings of that schedule, each request failing with a network error before the next
  firing.
\<close>

fun failing_polls :: "int \<Rightarrow> nat \<Rightarrow> event list" where
  "failing_polls t0 0 = []"
| "failing_polls t0 (Suc k) =
     failing_polls t0 k @ [Tick (t0 + 2000 * int (Suc k)), Response NetworkError]"

text \<open>
  For the overlay: the text that a tree displays, its text leaves in document order.
\<close>

fun texts :: "node \<Rightarrow> jsstring list" where
  "texts (Text str) = [str]"
| "texts (Element tag attrs children) = concat (map texts children)"

section \<open>Sample data\<close>

text \<open>
  Concrete inputs for the runs below. \<open>getTime_sample\<close> is the date parser on two ISO
  timestamps, with their epoch milliseconds, and unparseable elsewhere. \<open>ucd_sample\<close> holds
  the entries of the Unicode Character Database for Basic Latin and for the Greek letters
  U+0391 to U+03A9 and U+03B1 to U+03C9; beyond those ranges it is a placeholder
  (identity, uncased), and the runs stay inside them. \<open>heap_with\<close> is a store with one
  array at address \<open>0\<close> and one set at (set) address \<open>0\<close>.
\<close>

definition getTime_sample :: "jsstring \<Rightarrow> int option" where
  "getTime_sample str =
     (if str = ascii ''2026-01-01T01:00:00Z'' then Some 1767229200000
      else if str = ascii ''2025-12-01T00:00:00Z'' then Some 1764547200000
      else None)"

definition ucd_sample :: ucd where
  "ucd_sample =
     \<lparr>lower_mapping = (\<lambda>c. if (0x41 \<le> c \<and> c \<le> 0x5A) \<or> (0x391 \<le> c \<and> c \<le> 0x3A9 \<and> c \<noteq> 0x3A2)
                             then [c + 32] else [c]),
      cased = (\<lambda>c. (0x41 \<le> c \<and> c \<le> 0x5A) \<or> (0x61 \<le> c \<and> c \<le> 0x7A)
                     \<or> (0x391 \<le> c \<and> c \<le> 0x3A9 \<and> c \<noteq> 0x3A2) \<or> (0x3B1 \<le> c \<and> c \<le> 0x3C9)),
      case_ignorable = (\<lambda>c. c \<in> set [0x27, 0x2E, 0x3A, 0x5E, 0x60])\<rparr>"

definition heap_with :: "'a list \<Rightarrow> jsstring set \<Rightarrow> 'a heap" where
  "heap_with xs strs =
     \<lparr>arrays = (\<lambda>r. [])(0 := xs), sets = (\<lambda>r. {})(0 := strs), next_array = 1\<rparr>"

definition mk_session :: "string \<Rightarrow> string \<Rightarrow> session" where
  "mk_session i upd =
     \<lparr>id_s = ascii i, summary = None, repository = None, branch = None, cwd = None,
      group_s = None, intent = None, mcp_servers = None, updated_at = ascii upd\<rparr>"

definition mk_grouped :: "string \<Rightarrow> string \<Rightarrow> session" where
  "mk_grouped i g = (mk_session i ''2026-01-01T01:00:00Z'')\<lparr>group_s := Some (ascii g)\<rparr>"

definition mk_summary :: "string \<Rightarrow> jsstring \<Rightarrow> session" where
  "mk_summary i str = (mk_session i ''2026-01-01T01:00:00Z'')\<lparr>summary := Some str\<rparr>"

definition mk_repo :: "string \<Rightarrow> string \<Rightarrow> string \<Rightarrow> session" where
  "mk_repo i summ repo =
     (mk_session i ''2026-01-01T01:00:00Z'')
       \<lparr>summary := Some (ascii summ), repository := Some (ascii repo)\<rparr>"

section \<open>Facts about the runtime\<close>

subsection \<open>Sorting\<close>

lemma array_sort_key: "array_sort (\<lambda>a b. f a - f b) xs = sort_key f xs"
proof -
  have ins: "insert_sorted (\<lambda>a b. f a - f b) x ys = insort_key f x ys" for x ys
    by (induction ys) auto
  show ?thesis
    by (induction xs) (simp_all add: array_sort_def ins)
qed

lemma sort_key_map: "sort_key f (map g xs) = map g (sort_key (\<lambda>x. f (g x)) xs)"
proof -
  have ins: "insort_key f (g x) (map g ys) = map g (insort_key (\<lambda>x. f (g x)) x ys)" for x ys
    by (induction ys) auto
  show ?thesis
    by (induction xs) (simp_all add: ins)
qed

lemma insort_key_skip:
  "\<forall>y \<in> set ys. f y < f x \<Longrightarrow> insort_key f x (ys @ zs) = ys @ insort_key f x zs"
  by (induction ys) auto

lemma insort_key_front:
  "\<forall>y \<in> set zs. f x \<le> f y \<Longrightarrow> insort_key f x zs = x # zs"
  by (cases zs) auto

lemma sort_key_partition:
  fixes f :: "'a \<Rightarrow> int"
  assumes "\<And>x. f x = (if P x then - 1 else 0)"
  shows "sort_key f xs = filter P xs @ filter (\<lambda>x. \<not> P x) xs"
proof (induction xs)
  case Nil
  then show ?case by simp
next
  case (Cons x xs)
  show ?case
  proof (cases "P x")
    case True
    then have "insort_key f x (filter P xs @ filter (\<lambda>x. \<not> P x) xs)
        = x # filter P xs @ filter (\<lambda>x. \<not> P x) xs"
      by (intro insort_key_front) (auto simp: assms)
    with True Cons show ?thesis by simp
  next
    case False
    then have "insort_key f x (filter P xs @ filter (\<lambda>x. \<not> P x) xs)
        = filter P xs @ insort_key f x (filter (\<lambda>x. \<not> P x) xs)"
      by (intro insort_key_skip) (auto simp: assms)
    also have "insort_key f x (filter (\<lambda>x. \<not> P x) xs) = x # filter (\<lambda>x. \<not> P x) xs"
      using False by (intro insort_key_front) (auto simp: assms)
    finally show ?thesis using False Cons by simp
  qed
qed

subsection \<open>Strings\<close>

lemma starts_with_iff: "starts_with h n \<longleftrightarrow> (\<exists>r. h = n @ r)"
  by (induction h n rule: starts_with.induct) auto

lemma String_includes_iff: "String_includes h n \<longleftrightarrow> (\<exists>p r. h = p @ n @ r)"
proof (induction h)
  case Nil
  then show ?case by auto
next
  case (Cons x xs)
  show ?case
  proof
    assume "String_includes (x # xs) n"
    then consider "starts_with (x # xs) n" | "String_includes xs n" by auto
    then show "\<exists>p r. x # xs = p @ n @ r"
    proof cases
      case 1
      then obtain r where "x # xs = n @ r" by (auto simp: starts_with_iff)
      then have "x # xs = [] @ n @ r" by simp
      then show ?thesis by blast
    next
      case 2
      with Cons.IH obtain p r where "xs = p @ n @ r" by auto
      then have "x # xs = (x # p) @ n @ r" by simp
      then show ?thesis by blast
    qed
  next
    assume "\<exists>p r. x # xs = p @ n @ r"
    then obtain p r where eq: "x # xs = p @ n @ r" by auto
    show "String_includes (x # xs) n"
    proof (cases p)
      case Nil
      with eq have "starts_with (x # xs) n" by (auto simp: starts_with_iff)
      then show ?thesis by simp
    next
      case (Cons y ys)
      with eq have "xs = ys @ n @ r" by simp
      with Cons.IH show ?thesis by auto
    qed
  qed
qed

lemma join_cons: "join sep (x # xs) = x @ concat (map (\<lambda>y. sep @ y) xs)"
  by (induction sep "x # xs" arbitrary: x xs rule: join.induct) auto

text \<open>
  Reading code points commutes with concatenation unless the seam splits a surrogate
  pair.
\<close>

lemma code_points_append:
  "\<not> (xs \<noteq> [] \<and> ys \<noteq> [] \<and> is_high (last xs) \<and> is_low (hd ys)) \<Longrightarrow>
   code_points (xs @ ys) = code_points xs @ code_points ys"
proof (induction xs rule: code_points.induct)
  case 1
  then show ?case by simp
next
  case (2 u)
  then show ?case by (cases ys) auto
next
  case (3 u v rest)
  then show ?case by (cases rest) auto
qed

lemma sigma_code_points: "0x3A3 \<notin> set q \<Longrightarrow> 0x3A3 \<notin> set (code_points q)"
  by (induction q rule: code_points.induct) auto

text \<open>
  Without a capital sigma, lowering is the mapping applied code point by code point; and
  in any case what has been lowered of a prefix is a prefix of the result.
\<close>

lemma to_lowercase_plain:
  "0x3A3 \<notin> set cs \<Longrightarrow>
   to_lowercase u preceding (cs @ rest)
     = concat (map (lower_mapping u) cs) @ to_lowercase u (rev cs @ preceding) rest"
  by (induction cs arbitrary: preceding) auto

lemma to_lowercase_prefix:
  "\<exists>p. to_lowercase u preceding (cs @ rest) = p @ to_lowercase u (rev cs @ preceding) rest"
proof (induction cs arbitrary: preceding)
  case Nil
  then show ?case by simp
next
  case (Cons c cs)
  from Cons[of "c # preceding"] obtain p where
    "to_lowercase u (c # preceding) (cs @ rest) = p @ to_lowercase u (rev cs @ c # preceding) rest"
    by blast
  then show ?case by simp
qed

lemma code_points_to_string_append:
  "code_points_to_string (xs @ ys) = code_points_to_string xs @ code_points_to_string ys"
  by (simp add: code_points_to_string_def)

lemma toLowerCase_occurrence:
  assumes sigma: "0x3A3 \<notin> set q"
    and left: "\<not> (a \<noteq> [] \<and> q \<noteq> [] \<and> is_high (last a) \<and> is_low (hd q))"
    and right: "\<not> (q \<noteq> [] \<and> b \<noteq> [] \<and> is_high (last q) \<and> is_low (hd b))"
  shows "\<exists>p r. toLowerCase u (a @ q @ b) = p @ toLowerCase u q @ r"
proof (cases "q = []")
  case True
  then show ?thesis by (auto simp: toLowerCase_def code_points_to_string_def)
next
  case False
  have "code_points (q @ b) = code_points q @ code_points b"
    using right by (intro code_points_append) auto
  moreover have "code_points (a @ (q @ b)) = code_points a @ code_points (q @ b)"
    using left False by (intro code_points_append) auto
  ultimately have cps: "code_points (a @ q @ b) = code_points a @ code_points q @ code_points b"
    by simp
  let ?Q = "code_points q"
  have nosig: "0x3A3 \<notin> set ?Q" using sigma by (rule sigma_code_points)
  obtain p where p: "to_lowercase u [] (code_points a @ ?Q @ code_points b)
      = p @ to_lowercase u (rev (code_points a) @ []) (?Q @ code_points b)"
    using to_lowercase_prefix[of u "[]" "code_points a" "?Q @ code_points b"] by blast
  have mid: "to_lowercase u (rev (code_points a) @ []) (?Q @ code_points b)
      = concat (map (lower_mapping u) ?Q)
        @ to_lowercase u (rev ?Q @ rev (code_points a) @ []) (code_points b)"
    using nosig by (rule to_lowercase_plain)
  have alone: "to_lowercase u [] ?Q = concat (map (lower_mapping u) ?Q)"
    using to_lowercase_plain[OF nosig, of u "[]" "[]"] by simp
  show ?thesis
    unfolding toLowerCase_def cps p mid alone code_points_to_string_append by blast
qed

section \<open>Properties of splitActivePrevious\<close>

lemma truthy_object_get:
  "truthy (object_get processes k) \<longleftrightarrow> processes k \<noteq> None \<or> k \<in> set object_prototype_keys"
  by (auto simp: truthy_def object_get_def split: option.splits)

lemma split_loop_active:
  "active (split_loop getTime processes fda sessions acc) =
     active acc @ filter (\<lambda>s. truthy (object_get processes (id_s s))) sessions"
  by (induction sessions arbitrary: acc) auto

lemma split_loop_previous:
  "previous (split_loop getTime processes fda sessions acc) =
     previous acc @
       filter (\<lambda>s. \<not> truthy (object_get processes (id_s s))
                 \<and> nan_ge (getTime (updated_at s)) fda) sessions"
  by (induction sessions arbitrary: acc) auto

lemma splitActivePrevious_active:
  "active (splitActivePrevious getTime now sessions processes) =
     filter (\<lambda>s. truthy (object_get processes (id_s s))) sessions"
  by (simp add: splitActivePrevious_def split_loop_active)

lemma splitActivePrevious_previous:
  "previous (splitActivePrevious getTime now sessions processes) =
     filter (\<lambda>s. \<not> truthy (object_get processes (id_s s))
               \<and> nan_ge (getTime (updated_at s)) (now - 432000000)) sessions"
  by (simp add: splitActivePrevious_def split_loop_previous)

text \<open>
  For a session whose id names no member of \<open>Object.prototype\<close>, the function does what
  its comment says: the session is active if and only if it is an input session with an
  entry in the process map, whatever its timestamp; with an entry it is never previous;
  and without one, with a timestamp that is unparseable or more than five days old, it is
  in neither list. A session with an entry is active and not previous whatever its id.
\<close>

lemma splitActivePrevious_active_iff_entry:
  "id_s s \<notin> set object_prototype_keys \<Longrightarrow>
   (s \<in> set (active (splitActivePrevious getTime now sessions processes))
      \<longleftrightarrow> s \<in> set sessions \<and> processes (id_s s) \<noteq> None)"
  by (auto simp: splitActivePrevious_active truthy_object_get)

lemma splitActivePrevious_entry_active:
  "processes (id_s s) \<noteq> None \<Longrightarrow>
   (s \<in> set (active (splitActivePrevious getTime now sessions processes)) \<longleftrightarrow> s \<in> set sessions)
   \<and> s \<notin> set (previous (splitActivePrevious getTime now sessions processes))"
  by (auto simp: splitActivePrevious_active splitActivePrevious_previous truthy_object_get)

lemma splitActivePrevious_drops_stale:
  "id_s s \<notin> set object_prototype_keys \<Longrightarrow>
   processes (id_s s) = None \<Longrightarrow>
   getTime (updated_at s) = None
     \<or> (\<exists>t. getTime (updated_at s) = Some t \<and> t < now - 5 * 24 * 60 * 60 * 1000) \<Longrightarrow>
   s \<notin> set (active (splitActivePrevious getTime now sessions processes))
   \<and> s \<notin> set (previous (splitActivePrevious getTime now sessions processes))"
  by (auto simp: splitActivePrevious_active splitActivePrevious_previous truthy_object_get
        nan_ge_def)

lemmas split_eval = splitActivePrevious_def object_get_def truthy_def object_prototype_keys_def
  getTime_sample_def nan_ge_def mk_session_def ascii_def

text \<open>
  Two ordinary runs. With a process for \<open>a\<close> only, \<open>a\<close> is active though a month old,
  and the recent \<open>b\<close> is previous. Without processes, the month-old \<open>a\<close> and \<open>b\<close> with its
  unparseable timestamp are dropped, and the current \<open>c\<close> is previous.
\<close>

lemma splitActivePrevious_run_with_process:
  "splitActivePrevious getTime_sample 1767229200000
     [mk_session ''a'' ''2025-12-01T00:00:00Z'', mk_session ''b'' ''2026-01-01T01:00:00Z'']
     [ascii ''a'' \<mapsto> (100::nat)]
   = \<lparr>active = [mk_session ''a'' ''2025-12-01T00:00:00Z''],
      previous = [mk_session ''b'' ''2026-01-01T01:00:00Z'']\<rparr>"
  by (simp add: split_eval)

lemma splitActivePrevious_run_without_process:
  "splitActivePrevious getTime_sample 1767229200000
     [mk_session ''a'' ''2025-12-01T00:00:00Z'', mk_session ''b'' ''soon'',
      mk_session ''c'' ''2026-01-01T01:00:00Z'']
     (Map.empty :: jsstring \<rightharpoonup> nat)
   = \<lparr>active = [], previous = [mk_session ''c'' ''2026-01-01T01:00:00Z'']\<rparr>"
  by (simp add: split_eval)

text \<open>
  C1 says that a session is active if and only if the process map has an entry under its
  id. The code breaks it on an id that names a member of \<open>Object.prototype\<close>: with the empty
  process map \<open>{}\<close> and a session whose id is \<open>constructor\<close>, \<open>processes[s.id]\<close> reads the
  inherited constructor function, which is truthy, and the session is listed as active
  without any entry.
\<close>

theorem splitActivePrevious_inherited_member_active:
  "(Map.empty :: jsstring \<rightharpoonup> nat) (id_s (mk_session ''constructor'' ''2026-01-01T01:00:00Z'')) = None
   \<and> splitActivePrevious getTime_sample 1767229200000
        [mk_session ''constructor'' ''2026-01-01T01:00:00Z'']
        (Map.empty :: jsstring \<rightharpoonup> nat)
      = \<lparr>active = [mk_session ''constructor'' ''2026-01-01T01:00:00Z''], previous = []\<rparr>"
  by (simp add: split_eval)

text \<open>
  C4 says that a session without an entry whose \<open>updated_at\<close> is unparseable or more than
  five days old is in neither list. The code breaks it in the same way: with the empty
  process map and a session whose id is \<open>toString\<close> and whose timestamp does not parse (or
  is a month old), the session is listed as active.
\<close>

theorem splitActivePrevious_inherited_member_not_dropped:
  "(Map.empty :: jsstring \<rightharpoonup> nat) (id_s (mk_session ''toString'' ''soon'')) = None
   \<and> getTime_sample (updated_at (mk_session ''toString'' ''soon'')) = None
   \<and> splitActivePrevious getTime_sample 1767229200000
        [mk_session ''toString'' ''soon'', mk_session ''toString'' ''2025-12-01T00:00:00Z'']
        (Map.empty :: jsstring \<rightharpoonup> nat)
      = \<lparr>active = [mk_session ''toString'' ''soon'', mk_session ''toString'' ''2025-12-01T00:00:00Z''],
         previous = []\<rparr>"
  by (simp add: split_eval)

section \<open>Properties of groupSessions\<close>

lemma first_seen_snoc:
  "first_seen (xs @ [x]) = (if x \<in> set xs then first_seen xs else first_seen xs @ [x])"
  by (simp add: first_seen_def)

lemma set_first_seen: "set (first_seen xs) = set xs"
  by (simp add: first_seen_def)

lemma distinct_first_seen: "distinct (first_seen xs)"
  by (simp add: first_seen_def)

lemma map_of_grouped:
  "map_of (grouped seen ks) k
     = (if k \<in> set ks then Some (filter (\<lambda>s. group_key s = k) seen) else None)"
  by (induction ks) (auto simp: grouped_def)

lemma obj_set_absent: "k \<notin> fst ` set obj \<Longrightarrow> obj_set obj k v = obj @ [(k, v)]"
  by (induction obj) auto

lemma obj_set_present:
  "distinct ks \<Longrightarrow> k \<in> set ks \<Longrightarrow>
   obj_set (map (\<lambda>k'. (k', F k')) ks) k v = map (\<lambda>k'. (k', if k' = k then v else F k')) ks"
proof (induction ks)
  case Nil
  then show ?case by simp
next
  case (Cons a ks)
  show ?case
  proof (cases "a = k")
    case True
    with Cons.prems have "k \<notin> set ks" by simp
    then have "map (\<lambda>k'. (k', if k' = k then v else F k')) ks = map (\<lambda>k'. (k', F k')) ks"
      by (intro map_cong) auto
    with True show ?thesis by simp
  next
    case False
    with Cons show ?thesis by simp
  qed
qed

lemma groups_push_grouped:
  assumes "groups_push (grouped seen (first_seen (map group_key seen))) (group_key s) s = Inr groups'"
  shows "groups' = grouped (seen @ [s]) (first_seen (map group_key (seen @ [s])))"
proof (cases "group_key s \<in> set (map group_key seen)")
  case True
  let ?ks = "first_seen (map group_key seen)"
  from True have mem: "group_key s \<in> set ?ks" by (simp add: set_first_seen)
  then have "groups' = obj_set (grouped seen ?ks) (group_key s) (filter (\<lambda>x. group_key x = group_key s) seen @ [s])"
    using assms by (simp add: groups_push_def map_of_grouped)
  also have "\<dots> = map (\<lambda>k'. (k', if k' = group_key s then filter (\<lambda>x. group_key x = group_key s) seen @ [s]
                                   else filter (\<lambda>x. group_key x = k') seen)) ?ks"
    unfolding grouped_def using mem by (intro obj_set_present) (simp_all add: distinct_first_seen)
  also have "\<dots> = grouped (seen @ [s]) ?ks"
    unfolding grouped_def by (intro map_cong) auto
  finally show ?thesis using True by (simp add: first_seen_snoc)
next
  case False
  let ?ks = "first_seen (map group_key seen)"
  from False have nin: "group_key s \<notin> set ?ks" by (simp add: set_first_seen)
  then have absent: "group_key s \<notin> fst ` set (grouped seen ?ks)"
    by (auto simp: grouped_def)
  from nin assms have "groups' = obj_set (grouped seen ?ks) (group_key s) [s]"
    by (simp add: groups_push_def map_of_grouped split: if_splits)
  also have "\<dots> = grouped seen ?ks @ [(group_key s, [s])]"
    using absent by (rule obj_set_absent)
  finally have res: "groups' = grouped seen ?ks @ [(group_key s, [s])]" .
  have same: "grouped seen ?ks = grouped (seen @ [s]) ?ks"
    unfolding grouped_def
  proof (intro map_cong refl)
    fix k assume "k \<in> set ?ks"
    with nin have "group_key s \<noteq> k" by auto
    then show "(k, filter (\<lambda>x. group_key x = k) seen) = (k, filter (\<lambda>x. group_key x = k) (seen @ [s]))"
      by simp
  qed
  have "filter (\<lambda>x. group_key x = group_key s) seen = []"
    using False by (fastforce simp: filter_empty_conv image_iff)
  then have "grouped (seen @ [s]) ?ks @ [(group_key s, [s])] = grouped (seen @ [s]) (?ks @ [group_key s])"
    by (simp add: grouped_def)
  with res same show ?thesis using False by (simp add: first_seen_snoc)
qed

text \<open>
  The loop invariant: after the sessions \<open>seen\<close>, the object holds one property for each
  group key, in order of first occurrence, with the sessions of that group in input order.
\<close>

lemma group_loop_grouped:
  "group_loop ss (grouped seen (first_seen (map group_key seen))) = Inr res \<Longrightarrow>
   res = grouped (seen @ ss) (first_seen (map group_key (seen @ ss)))"
proof (induction ss arbitrary: seen)
  case Nil
  then show ?case by simp
next
  case (Cons s ss)
  then show ?case
    using groups_push_grouped[of seen s] Cons.IH[of "seen @ [s]"]
    by (auto split: sum.splits)
qed

lemma group_loop_result:
  "group_loop sessions [] = Inr res \<Longrightarrow> res = grouped sessions (first_seen (map group_key sessions))"
  using group_loop_grouped[of sessions "[]" res] by (simp add: grouped_def first_seen_def)

lemma object_entries_grouped: "object_entries (grouped ss ks) = grouped ss (entries_order ks)"
  by (simp add: object_entries_def grouped_def entries_order_def filter_map o_def sort_key_map)

lemma groupSessions_result:
  assumes "groupSessions sessions = Inr gs"
  shows "gs = sort_key (\<lambda>p. - int (length (snd p)))
                (grouped sessions (entries_order (first_seen (map group_key sessions))))"
proof -
  from assms obtain res where res: "group_loop sessions [] = Inr res"
    and gs: "gs = array_sort (\<lambda>a b. int (length (snd b)) - int (length (snd a))) (object_entries res)"
    by (auto simp: groupSessions_def split: sum.splits)
  have "array_sort (\<lambda>a b. int (length (snd b)) - int (length (snd a))) xs
        = sort_key (\<lambda>p. - int (length (snd p))) xs" for xs :: "(jsstring \<times> 'a session_scheme list) list"
    using array_sort_key[of "\<lambda>p. - int (length (snd p))" xs] by simp
  with gs group_loop_result[OF res] show ?thesis
    by (simp add: object_entries_grouped)
qed

text \<open>
  The function returns whenever no group key names a property of \<open>Object.prototype\<close>.
\<close>

lemma group_loop_returns:
  "list_all (\<lambda>s. group_key s \<notin> set object_prototype_keys) ss \<Longrightarrow> \<exists>res. group_loop ss acc = Inr res"
  by (induction ss arbitrary: acc) (auto simp: groups_push_def split: option.splits)

lemma groupSessions_returns:
  "list_all (\<lambda>s. group_key s \<notin> set object_prototype_keys) sessions \<Longrightarrow> \<exists>gs. groupSessions sessions = Inr gs"
  using group_loop_returns[of sessions "[]"] by (auto simp: groupSessions_def)

lemma entries_order_no_index: "list_all (\<lambda>k. \<not> is_array_index k) ks \<Longrightarrow> entries_order ks = ks"
proof -
  assume "list_all (\<lambda>k. \<not> is_array_index k) ks"
  then have "filter is_array_index ks = []" and "filter (\<lambda>k. \<not> is_array_index k) ks = ks"
    by (auto simp: list_all_iff filter_empty_conv filter_id_conv)
  then show ?thesis by (simp add: entries_order_def)
qed

text \<open>
  C2, as amended. Whenever \<open>groupSessions\<close> returns a list, (1) the list is sorted by
  descending member count: any group has at least as many members as every group after it,
  in particular the next one; (2) the groups with a given count \<open>n\<close> appear in the key order
  of \<open>Object.entries\<close>: array-index keys first, in ascending numeric order, then the other
  keys in the order in which they were first encountered; (3) so when no group key is an
  array index, groups with equal counts appear in first-encountered order.
\<close>

theorem groupSessions_sorted_ties:
  assumes "groupSessions sessions = Inr gs"
  shows "sorted_wrt (\<lambda>a b. length (snd a) \<ge> length (snd b)) gs
    \<and> map fst (filter (\<lambda>g. length (snd g) = n) gs)
        = filter (\<lambda>k. length (filter (\<lambda>s. group_key s = k) sessions) = n)
            (entries_order (first_seen (map group_key sessions)))
    \<and> (list_all (\<lambda>s. \<not> is_array_index (group_key s)) sessions \<longrightarrow>
         map fst (filter (\<lambda>g. length (snd g) = n) gs)
         = filter (\<lambda>k. length (filter (\<lambda>s. group_key s = k) sessions) = n)
            (first_seen (map group_key sessions)))"
proof -
  let ?f = "\<lambda>p :: jsstring \<times> 'a session_scheme list. - int (length (snd p))"
  let ?ks = "entries_order (first_seen (map group_key sessions))"
  have gs: "gs = sort_key ?f (grouped sessions ?ks)"
    using assms by (rule groupSessions_result)
  have "sorted (map ?f gs)" unfolding gs by (rule sorted_sort_key)
  then have sorted: "sorted_wrt (\<lambda>a b. length (snd a) \<ge> length (snd b)) gs"
    by (simp add: sorted_map)
  have "filter (\<lambda>g. length (snd g) = n) gs = filter (\<lambda>g. ?f g = - int n) gs"
    by (intro filter_cong) auto
  also have "\<dots> = filter (\<lambda>g. ?f g = - int n) (grouped sessions ?ks)"
    unfolding gs by (rule sort_key_stable)
  also have "\<dots> = filter (\<lambda>g. length (snd g) = n) (grouped sessions ?ks)"
    by (intro filter_cong) auto
  finally have ties: "map fst (filter (\<lambda>g. length (snd g) = n) gs)
        = filter (\<lambda>k. length (filter (\<lambda>s. group_key s = k) sessions) = n) ?ks"
    by (simp add: grouped_def filter_map o_def)
  have "list_all (\<lambda>k. \<not> is_array_index k) (first_seen (map group_key sessions))"
    if "list_all (\<lambda>s. \<not> is_array_index (group_key s)) sessions"
    using that by (auto simp: list_all_iff set_first_seen)
  then have "?ks = first_seen (map group_key sessions)"
    if "list_all (\<lambda>s. \<not> is_array_index (group_key s)) sessions"
    using that by (simp add: entries_order_no_index)
  with sorted ties show ?thesis by simp
qed

lemmas group_eval = groupSessions_def groups_push_def object_prototype_keys_def object_entries_def
  is_array_index_def digits_value_def is_digit_def array_sort_def group_key_def General_def
  mk_grouped_def mk_session_def ascii_def first_seen_def entries_order_def

text \<open>
  C2 as stated fails on tie order. Two sessions, the first in group \<open>web\<close>, the second in
  group \<open>2024\<close>: both groups have one member and \<open>web\<close> is encountered first, yet the
  result lists \<open>2024\<close> first, because \<open>Object.entries\<close> puts the array-index key first.
\<close>

theorem groupSessions_tie_order_counterexample:
  "groupSessions [mk_grouped ''s1'' ''web'', mk_grouped ''s2'' ''2024'']
     = Inr [(ascii ''2024'', [mk_grouped ''s2'' ''2024'']), (ascii ''web'', [mk_grouped ''s1'' ''web''])]
   \<and> first_seen (map group_key [mk_grouped ''s1'' ''web'', mk_grouped ''s2'' ''2024''])
     = [ascii ''web'', ascii ''2024'']
   \<and> length [mk_grouped ''s2'' ''2024''] = length [mk_grouped ''s1'' ''web'']
   \<and> map fst [(ascii ''2024'', [mk_grouped ''s2'' ''2024'']), (ascii ''web'', [mk_grouped ''s1'' ''web''])]
     \<noteq> first_seen (map group_key [mk_grouped ''s1'' ''web'', mk_grouped ''s2'' ''2024''])"
  by (simp add: group_eval)

text \<open>
  The end-to-end scenario of the specification, and a run that throws.
\<close>

lemma groupSessions_scenario:
  "groupSessions [mk_grouped ''1'' ''A'', mk_grouped ''2'' ''A'', mk_grouped ''3'' ''B'']
     = Inr [(ascii ''A'', [mk_grouped ''1'' ''A'', mk_grouped ''2'' ''A'']),
            (ascii ''B'', [mk_grouped ''3'' ''B''])]"
  by (simp add: group_eval)

lemma groupSessions_throws:
  "groupSessions [mk_grouped ''1'' ''A'', mk_grouped ''2'' ''constructor''] = Inl TypeError"
  by (simp add: group_eval)

text \<open>
  The amended C2 on the scenario: the groups come back in descending size, and the one
  key with a single session is \<open>B\<close>.
\<close>

theorem groupSessions_sorted_ties_witness:
  "groupSessions [mk_grouped ''1'' ''A'', mk_grouped ''2'' ''A'', mk_grouped ''3'' ''B'']
     = Inr [(ascii ''A'', [mk_grouped ''1'' ''A'', mk_grouped ''2'' ''A'']),
            (ascii ''B'', [mk_grouped ''3'' ''B''])]
   \<and> sorted_wrt (\<lambda>a b. length (snd a) \<ge> length (snd b))
        [(ascii ''A'', [mk_grouped ''1'' ''A'', mk_grouped ''2'' ''A'']),
         (ascii ''B'', [mk_grouped ''3'' ''B''])]
   \<and> filter (\<lambda>k. length (filter (\<lambda>s. group_key s = k)
                  [mk_grouped ''1'' ''A'', mk_grouped ''2'' ''A'', mk_grouped ''3'' ''B'']) = 1)
        (entries_order (first_seen (map group_key
           [mk_grouped ''1'' ''A'', mk_grouped ''2'' ''A'', mk_grouped ''3'' ''B''])))
     = [ascii ''B'']"
  using groupSessions_sorted_ties [OF groupSessions_scenario, of 1] groupSessions_scenario
  by (simp add: ascii_def)

section \<open>Properties of filterSessions\<close>

text \<open>
  C3. With the empty query \<open>filterSessions\<close> returns the very array it was given, the same
  address and not a copy, and leaves the store as it was: nothing is allocated and nothing
  changes. (The parameter is typed \<open>string\<close>; the empty string is its only falsy value.)
\<close>

theorem filterSessions_empty_query_identity:
  "filterSessions u h sessions [] = (h, sessions)"
  by (simp add: filterSessions_def)

lemma hay_occurrence:
  assumes summ: "summary s = Some (a @ q @ b)" and ne: "q \<noteq> []"
    and sigma: "0x3A3 \<notin> set q"
    and left: "\<not> (a \<noteq> [] \<and> is_high (last a) \<and> is_low (hd q))"
    and right: "\<not> (b \<noteq> [] \<and> is_high (last q) \<and> is_low (hd b))"
  shows "String_includes (hay u s) (toLowerCase u q)"
proof -
  obtain others where fields: "filter_Boolean (searched_fields s) = (a @ q @ b) # others"
    using summ ne by (simp add: filter_Boolean_def searched_fields_def)
  define tail where "tail = concat (map (\<lambda>y. ascii '' '' @ y) others)"
  have joined: "join (ascii '' '') (filter_Boolean (searched_fields s)) = a @ q @ (b @ tail)"
    by (simp add: fields join_cons tail_def)
  have tail_hd: "tail = [] \<or> hd tail = 32"
    by (cases others) (auto simp: tail_def ascii_def)
  have "\<not> (q \<noteq> [] \<and> b @ tail \<noteq> [] \<and> is_high (last q) \<and> is_low (hd (b @ tail)))"
  proof (cases "b = []")
    case True
    with tail_hd show ?thesis by (auto simp: is_low_def)
  next
    case False
    with right show ?thesis by auto
  qed
  with sigma left have "\<exists>p r. toLowerCase u (a @ q @ (b @ tail)) = p @ toLowerCase u q @ r"
    by (intro toLowerCase_occurrence) auto
  then show ?thesis
    by (simp add: hay_def joined String_includes_iff)
qed

text \<open>
  C6, as amended. Let the query \<open>q\<close> be non-empty and occur in the summary, which reads
  \<open>a @ q @ b\<close>. If \<open>q\<close> holds no capital sigma (U+03A3) and the occurrence does not split a
  surrogate pair at either end, then \<open>filterSessions([s], q)\<close> includes \<open>s\<close>, whatever the
  other fields hold and whatever the case mappings of the database are.
\<close>

theorem filterSessions_keeps_summary_match:
  assumes "arrays h sessions = [s]" and "summary s = Some (a @ q @ b)" and "q \<noteq> []"
    and "0x3A3 \<notin> set q"
    and "\<not> (a \<noteq> [] \<and> is_high (last a) \<and> is_low (hd q))"
    and "\<not> (b \<noteq> [] \<and> is_high (last q) \<and> is_low (hd b))"
    and "filterSessions u h sessions q = (h', result)"
  shows "s \<in> set (arrays h' result)"
  using assms hay_occurrence[of s a q b u]
  by (auto simp: filterSessions_def Array_filter_def new_array_def)

lemmas string_eval = toLowerCase_def code_points_to_string_def utf16_def final_sigma_def
  ucd_sample_def is_high_def is_low_def hay_def filter_Boolean_def searched_fields_def
  filterSessions_def Array_filter_def new_array_def heap_with_def mk_session_def ascii_def

text \<open>
  C6 as stated fails. The summary is the three letters U+0391 U+03A3 U+0391 (capital
  alpha, sigma, alpha) and the query its first two letters. In the summary the sigma is
  followed by a letter and becomes U+03C3; in the query it ends the word and becomes the
  final sigma U+03C2. The lowered query is no part of the lowered haystack, and the
  session is filtered out.
\<close>

theorem filterSessions_final_sigma_counterexample:
  "summary (mk_summary ''s1'' [0x391, 0x3A3, 0x391]) = Some ([] @ [0x391, 0x3A3] @ [0x391])
   \<and> toLowerCase ucd_sample [0x391, 0x3A3, 0x391] = [0x3B1, 0x3C3, 0x3B1]
   \<and> toLowerCase ucd_sample [0x391, 0x3A3] = [0x3B1, 0x3C2]
   \<and> arrays (fst (filterSessions ucd_sample (heap_with [mk_summary ''s1'' [0x391, 0x3A3, 0x391]] {}) 0 [0x391, 0x3A3]))
        (snd (filterSessions ucd_sample (heap_with [mk_summary ''s1'' [0x391, 0x3A3, 0x391]] {}) 0 [0x391, 0x3A3]))
      = []"
  by (simp add: string_eval mk_summary_def)

text \<open>
  The amended C6 at a concrete input: the query \<open>Login\<close> in the summary
  \<open>Fix Login bug\<close>.
\<close>

theorem filterSessions_keeps_summary_match_witness:
  "summary (mk_summary ''s1'' (ascii ''Fix Login bug'')) = Some (ascii ''Fix '' @ ascii ''Login'' @ ascii '' bug'')
   \<and> mk_summary ''s1'' (ascii ''Fix Login bug'')
     \<in> set (arrays (fst (filterSessions ucd_sample (heap_with [mk_summary ''s1'' (ascii ''Fix Login bug'')] {}) 0 (ascii ''Login'')))
          (snd (filterSessions ucd_sample (heap_with [mk_summary ''s1'' (ascii ''Fix Login bug'')] {}) 0 (ascii ''Login''))))"
  using filterSessions_keeps_summary_match
    [where h = "heap_with [mk_summary ''s1'' (ascii ''Fix Login bug'')] {}" and sessions = 0
       and s = "mk_summary ''s1'' (ascii ''Fix Login bug'')" and a = "ascii ''Fix ''"
       and q = "ascii ''Login''" and b = "ascii '' bug''" and u = ucd_sample,
     OF _ _ _ _ _ _ surjective_pairing]
  by (simp add: heap_with_def mk_summary_def mk_session_def ascii_def is_high_def is_low_def)

text \<open>
  What \<open>filterSessions\<close> keeps under a non-empty filter: the sessions whose haystack, the
  non-empty fields joined by a single space and lowered, contains the lowered filter.
\<close>

lemma filterSessions_result:
  "flt \<noteq> [] \<Longrightarrow>
   arrays (fst (filterSessions u h sessions flt)) (snd (filterSessions u h sessions flt))
     = filter (\<lambda>s. String_includes
                      (toLowerCase u (join [32] (filter_Boolean (searched_fields s))))
                      (toLowerCase u flt))
         (arrays h sessions)"
  by (simp add: filterSessions_def Array_filter_def new_array_def hay_def ascii_def Let_def)

text \<open>
  A run in which the match straddles two fields: summary \<open>Fix login\<close>, repository
  \<open>dashboard\<close>, so the haystack is \<open>fix login dashboard\<close>. The query \<open>login dash\<close>, the end of
  the first field, one space and the start of the second, is in neither field and keeps the
  session; without the space, or with two, the query drops it.
\<close>

lemma across_fields_fields:
  "filter_Boolean (searched_fields (mk_repo ''s1'' ''Fix login'' ''dashboard'')) = [ascii ''Fix login'', ascii ''dashboard'']"
  by (simp add: string_eval mk_repo_def)

lemma across_fields_hay:
  "hay ucd_sample (mk_repo ''s1'' ''Fix login'' ''dashboard'') = ascii ''fix login dashboard''"
  by (simp add: string_eval mk_repo_def)

lemma across_fields_hay_joined:
  "hay ucd_sample (mk_repo ''s1'' ''Fix login'' ''dashboard'')
     = toLowerCase ucd_sample (ascii ''Fix login'' @ [32] @ ascii ''dashboard'')"
  by (simp add: string_eval mk_repo_def)

lemma across_fields_no_single_field:
  "list_all (\<lambda>f. \<not> String_includes f (ascii ''login'' @ [32] @ ascii ''dash'')
               \<and> \<not> String_includes (toLowerCase ucd_sample f)
                     (toLowerCase ucd_sample (ascii ''login'' @ [32] @ ascii ''dash'')))
        [ascii ''Fix login'', ascii ''dashboard'']"
  by (simp add: string_eval)

lemma across_fields_kept:
  "arrays (fst (filterSessions ucd_sample (heap_with [mk_repo ''s1'' ''Fix login'' ''dashboard''] {}) 0 (ascii ''login'' @ [32] @ ascii ''dash'')))
        (snd (filterSessions ucd_sample (heap_with [mk_repo ''s1'' ''Fix login'' ''dashboard''] {}) 0 (ascii ''login'' @ [32] @ ascii ''dash'')))
      = [mk_repo ''s1'' ''Fix login'' ''dashboard'']"
  by (simp add: string_eval mk_repo_def)

lemma across_fields_dropped_without_space:
  "arrays (fst (filterSessions ucd_sample (heap_with [mk_repo ''s1'' ''Fix login'' ''dashboard''] {}) 0 (ascii ''login'' @ ascii ''dash'')))
        (snd (filterSessions ucd_sample (heap_with [mk_repo ''s1'' ''Fix login'' ''dashboard''] {}) 0 (ascii ''login'' @ ascii ''dash'')))
      = []"
  by (simp add: string_eval mk_repo_def)

lemma across_fields_dropped_with_two_spaces:
  "arrays (fst (filterSessions ucd_sample (heap_with [mk_repo ''s1'' ''Fix login'' ''dashboard''] {}) 0 (ascii ''login'' @ [32, 32] @ ascii ''dash'')))
        (snd (filterSessions ucd_sample (heap_with [mk_repo ''s1'' ''Fix login'' ''dashboard''] {}) 0 (ascii ''login'' @ [32, 32] @ ascii ''dash'')))
      = []"
  by (simp add: string_eval mk_repo_def)

text \<open>
  C10. Under a non-empty filter, \<open>filterSessions\<close> keeps exactly the sessions whose haystack
  contains the lowered filter, and the haystack is the non-empty searched fields (summary,
  repository, branch, cwd, group, intent, each MCP server name) joined by a single space
  and lowered. So there is a session with two non-empty fields \<open>f1\<close> and \<open>f2\<close> and a
  non-empty query, made of an end \<open>x\<close> of \<open>f1\<close>, one space and a start \<open>y\<close> of \<open>f2\<close>, such
  that the query is contained in neither field, as written or lowered, and yet
  \<open>filterSessions\<close> keeps the session; and the match does lie across the
  boundary, since the same query without the space drops the session.
\<close>

theorem filterSessions_matches_across_fields:
  "(\<forall>u (h :: session heap) sessions flt. flt \<noteq> [] \<longrightarrow>
      arrays (fst (filterSessions u h sessions flt)) (snd (filterSessions u h sessions flt))
        = filter (\<lambda>s. String_includes
                         (toLowerCase u (join [32] (filter_Boolean (searched_fields s))))
                         (toLowerCase u flt))
            (arrays h sessions))
   \<and> (\<exists>(s :: session) f1 f2 p x y r.
        filter_Boolean (searched_fields s) = [f1, f2]
      \<and> f1 = p @ x \<and> f2 = y @ r \<and> x \<noteq> [] \<and> y \<noteq> []
      \<and> join [32] [f1, f2] = f1 @ [32] @ f2
      \<and> hay ucd_sample s = toLowerCase ucd_sample (f1 @ [32] @ f2)
      \<and> list_all (\<lambda>f. \<not> String_includes f (x @ [32] @ y)
                  \<and> \<not> String_includes (toLowerCase ucd_sample f)
                        (toLowerCase ucd_sample (x @ [32] @ y)))
           [f1, f2]
      \<and> arrays (fst (filterSessions ucd_sample (heap_with [s] {}) 0 (x @ [32] @ y)))
           (snd (filterSessions ucd_sample (heap_with [s] {}) 0 (x @ [32] @ y))) = [s]
      \<and> arrays (fst (filterSessions ucd_sample (heap_with [s] {}) 0 (x @ y)))
           (snd (filterSessions ucd_sample (heap_with [s] {}) 0 (x @ y))) = [])"
proof (intro conjI allI impI)
  fix u and h :: "session heap" and sessions flt
  assume "flt \<noteq> ([] :: jsstring)"
  then show "arrays (fst (filterSessions u h sessions flt)) (snd (filterSessions u h sessions flt))
        = filter (\<lambda>s. String_includes
                         (toLowerCase u (join [32] (filter_Boolean (searched_fields s))))
                         (toLowerCase u flt))
            (arrays h sessions)"
    by (rule filterSessions_result)
next
  let ?s = "mk_repo ''s1'' ''Fix login'' ''dashboard''"
  have "filter_Boolean (searched_fields ?s) = [ascii ''Fix login'', ascii ''dashboard'']
      \<and> ascii ''Fix login'' = ascii ''Fix '' @ ascii ''login''
      \<and> ascii ''dashboard'' = ascii ''dash'' @ ascii ''board''
      \<and> ascii ''login'' \<noteq> [] \<and> ascii ''dash'' \<noteq> []
      \<and> join [32] [ascii ''Fix login'', ascii ''dashboard'']
          = ascii ''Fix login'' @ [32] @ ascii ''dashboard''
      \<and> hay ucd_sample ?s = toLowerCase ucd_sample (ascii ''Fix login'' @ [32] @ ascii ''dashboard'')
      \<and> list_all (\<lambda>f. \<not> String_includes f (ascii ''login'' @ [32] @ ascii ''dash'')
                  \<and> \<not> String_includes (toLowerCase ucd_sample f)
                        (toLowerCase ucd_sample (ascii ''login'' @ [32] @ ascii ''dash'')))
           [ascii ''Fix login'', ascii ''dashboard'']
      \<and> arrays (fst (filterSessions ucd_sample (heap_with [?s] {}) 0 (ascii ''login'' @ [32] @ ascii ''dash'')))
           (snd (filterSessions ucd_sample (heap_with [?s] {}) 0 (ascii ''login'' @ [32] @ ascii ''dash''))) = [?s]
      \<and> arrays (fst (filterSessions ucd_sample (heap_with [?s] {}) 0 (ascii ''login'' @ ascii ''dash'')))
           (snd (filterSessions ucd_sample (heap_with [?s] {}) 0 (ascii ''login'' @ ascii ''dash''))) = []"
  proof (intro conjI)
    show "ascii ''Fix login'' = ascii ''Fix '' @ ascii ''login''"
      and "ascii ''dashboard'' = ascii ''dash'' @ ascii ''board''"
      and "ascii ''login'' \<noteq> []" and "ascii ''dash'' \<noteq> []"
      by (simp_all add: ascii_def)
    show "join [32] [ascii ''Fix login'', ascii ''dashboard'']
          = ascii ''Fix login'' @ [32] @ ascii ''dashboard''"
      by simp
  qed (rule across_fields_fields across_fields_hay_joined across_fields_no_single_field
         across_fields_kept across_fields_dropped_without_space)+
  then show "\<exists>(s :: session) f1 f2 p x y r.
        filter_Boolean (searched_fields s) = [f1, f2]
      \<and> f1 = p @ x \<and> f2 = y @ r \<and> x \<noteq> [] \<and> y \<noteq> []
      \<and> join [32] [f1, f2] = f1 @ [32] @ f2
      \<and> hay ucd_sample s = toLowerCase ucd_sample (f1 @ [32] @ f2)
      \<and> list_all (\<lambda>f. \<not> String_includes f (x @ [32] @ y)
                  \<and> \<not> String_includes (toLowerCase ucd_sample f)
                        (toLowerCase ucd_sample (x @ [32] @ y)))
           [f1, f2]
      \<and> arrays (fst (filterSessions ucd_sample (heap_with [s] {}) 0 (x @ [32] @ y)))
           (snd (filterSessions ucd_sample (heap_with [s] {}) 0 (x @ [32] @ y))) = [s]
      \<and> arrays (fst (filterSessions ucd_sample (heap_with [s] {}) 0 (x @ y)))
           (snd (filterSessions ucd_sample (heap_with [s] {}) 0 (x @ y))) = []"
    by blast
qed

text \<open>
  C10 at the run above: by the first part of the theorem, what the filter returns for
  \<open>login dash\<close> is decided by the haystack \<open>fix login dashboard\<close>.
\<close>

theorem filterSessions_matches_across_fields_witness:
  "ascii ''login dash'' \<noteq> []
   \<and> arrays (fst (filterSessions ucd_sample (heap_with [mk_repo ''s1'' ''Fix login'' ''dashboard''] {}) 0
                    (ascii ''login dash'')))
        (snd (filterSessions ucd_sample (heap_with [mk_repo ''s1'' ''Fix login'' ''dashboard''] {}) 0
                    (ascii ''login dash'')))
      = filter (\<lambda>s. String_includes
                       (toLowerCase ucd_sample (join [32] (filter_Boolean (searched_fields s))))
                       (toLowerCase ucd_sample (ascii ''login dash'')))
          [mk_repo ''s1'' ''Fix login'' ''dashboard'']
   \<and> String_includes (ascii ''fix login dashboard'') (ascii ''login dash'')"
proof -
  have ne: "ascii ''login dash'' \<noteq> []"
    by (simp add: ascii_def)
  from filterSessions_matches_across_fields
  have "\<forall>u (h :: session heap) sessions flt. flt \<noteq> [] \<longrightarrow>
      arrays (fst (filterSessions u h sessions flt)) (snd (filterSessions u h sessions flt))
        = filter (\<lambda>s. String_includes
                         (toLowerCase u (join [32] (filter_Boolean (searched_fields s))))
                         (toLowerCase u flt))
            (arrays h sessions)"
    by (rule conjunct1)
  with ne have "arrays (fst (filterSessions ucd_sample (heap_with [mk_repo ''s1'' ''Fix login'' ''dashboard''] {}) 0
                    (ascii ''login dash'')))
        (snd (filterSessions ucd_sample (heap_with [mk_repo ''s1'' ''Fix login'' ''dashboard''] {}) 0
                    (ascii ''login dash'')))
      = filter (\<lambda>s. String_includes
                       (toLowerCase ucd_sample (join [32] (filter_Boolean (searched_fields s))))
                       (toLowerCase ucd_sample (ascii ''login dash'')))
          (arrays (heap_with [mk_repo ''s1'' ''Fix login'' ''dashboard''] {}) 0)"
    by blast
  moreover have "String_includes (ascii ''fix login dashboard'') (ascii ''login dash'')"
    by (simp add: ascii_def)
  ultimately show ?thesis
    using ne by (simp add: heap_with_def)
qed

section \<open>Properties of sortStarredFirst\<close>

lemma array_sort_starred:
  "array_sort (\<lambda>a b. (if P b then 1 else 0) - (if P a then 1 else 0)) xs
     = filter P xs @ filter (\<lambda>x. \<not> P x) xs"
proof -
  have "(\<lambda>a b. (if P b then 1 else 0) - (if P a then 1 else 0))
        = (\<lambda>a b. (if P a then - 1 else 0) - (if P b then - 1 else (0::int)))"
    by (intro ext) simp
  then have "array_sort (\<lambda>a b. (if P b then 1 else 0) - (if P a then 1 else 0)) xs
        = sort_key (\<lambda>a. if P a then - 1 else (0::int)) xs"
    using array_sort_key[of "\<lambda>a. if P a then - 1 else (0::int)" xs] by simp
  also have "\<dots> = filter P xs @ filter (\<lambda>x. \<not> P x) xs"
    by (rule sort_key_partition) simp
  finally show ?thesis .
qed

lemma partition_precedes:
  assumes "i < j" and "j < length (filter P xs @ filter (\<lambda>x. \<not> P x) xs)"
    and "P ((filter P xs @ filter (\<lambda>x. \<not> P x) xs) ! j)"
  shows "P ((filter P xs @ filter (\<lambda>x. \<not> P x) xs) ! i)"
proof -
  have "j < length (filter P xs)"
  proof (rule ccontr)
    assume "\<not> j < length (filter P xs)"
    then have "(filter P xs @ filter (\<lambda>x. \<not> P x) xs) ! j = filter (\<lambda>x. \<not> P x) xs ! (j - length (filter P xs))"
      and "j - length (filter P xs) < length (filter (\<lambda>x. \<not> P x) xs)"
      using assms(2) by (auto simp: nth_append)
    then have "\<not> P ((filter P xs @ filter (\<lambda>x. \<not> P x) xs) ! j)"
      using nth_mem[of "j - length (filter P xs)" "filter (\<lambda>x. \<not> P x) xs"] by auto
    with assms(3) show False by simp
  qed
  with assms(1) have "i < length (filter P xs)" by simp
  then have "(filter P xs @ filter (\<lambda>x. \<not> P x) xs) ! i = filter P xs ! i"
    by (simp add: nth_append)
  with \<open>i < length (filter P xs)\<close> show ?thesis
    using nth_mem[of i "filter P xs"] by auto
qed

text \<open>
  C5. For a store \<open>h\<close>, an array of sessions at a valid address and a set of starred ids,
  \<open>sortStarredFirst\<close> returns an array that holds the starred sessions of the input in
  their input order, followed by the other sessions in their input order: a stable
  partition. So every starred session precedes every session that is not starred. The
  result is a new array; every array that existed before, the input among them, holds what
  it held, and so does every set.
\<close>

theorem sortStarredFirst_stable_partition:
  assumes "sessions < next_array h"
    and "sortStarredFirst h sessions starred = (h', result)"
  shows "arrays h' result
       = filter (\<lambda>s. id_s s \<in> sets h starred) (arrays h sessions)
         @ filter (\<lambda>s. id_s s \<notin> sets h starred) (arrays h sessions)
    \<and> (\<forall>i j. i < j \<and> j < length (arrays h' result)
          \<and> id_s (arrays h' result ! j) \<in> sets h starred
        \<longrightarrow> id_s (arrays h' result ! i) \<in> sets h starred)
    \<and> result \<noteq> sessions
    \<and> (\<forall>r < next_array h. arrays h' r = arrays h r)
    \<and> sets h' = sets h"
proof -
  let ?P = "\<lambda>s :: 'a session_scheme. id_s s \<in> sets h starred"
  let ?out = "filter ?P (arrays h sessions) @ filter (\<lambda>s. \<not> ?P s) (arrays h sessions)"
  define h1 where "h1 = h\<lparr>arrays := (arrays h)(next_array h := ?out), next_array := Suc (next_array h)\<rparr>"
  have "sortStarredFirst h sessions starred = (h1, next_array h)"
    by (simp add: sortStarredFirst_def spread_def new_array_def Array_sort_def Set_has_def
          array_sort_starred h1_def)
  with assms(2) have "h' = h1" and result: "result = next_array h"
    by auto
  then have h': "h' = h\<lparr>arrays := (arrays h)(next_array h := ?out), next_array := Suc (next_array h)\<rparr>"
    by (simp add: h1_def)
  have prec: "\<forall>i j. i < j \<and> j < length ?out \<and> ?P (?out ! j) \<longrightarrow> ?P (?out ! i)"
    using partition_precedes[of _ _ ?P "arrays h sessions"] by blast
  show ?thesis
    unfolding h' result using assms(1) prec by auto
qed

text \<open>
  The scenario of the specification: with \<open>starred = {"3"}\<close>, sorting the sessions
  \<open>1, 2, 3\<close> yields \<open>3, 1, 2\<close>, and the input array still reads \<open>1, 2, 3\<close>.
\<close>

theorem sortStarredFirst_stable_partition_witness:
  "(0::nat) < next_array (heap_with [mk_session ''1'' ''t'', mk_session ''2'' ''t'', mk_session ''3'' ''t''] {ascii ''3''})
   \<and> arrays (fst (sortStarredFirst (heap_with [mk_session ''1'' ''t'', mk_session ''2'' ''t'', mk_session ''3'' ''t''] {ascii ''3''}) 0 0))
        (snd (sortStarredFirst (heap_with [mk_session ''1'' ''t'', mk_session ''2'' ''t'', mk_session ''3'' ''t''] {ascii ''3''}) 0 0))
      = [mk_session ''3'' ''t'', mk_session ''1'' ''t'', mk_session ''2'' ''t'']
   \<and> arrays (fst (sortStarredFirst (heap_with [mk_session ''1'' ''t'', mk_session ''2'' ''t'', mk_session ''3'' ''t''] {ascii ''3''}) 0 0)) 0
      = [mk_session ''1'' ''t'', mk_session ''2'' ''t'', mk_session ''3'' ''t'']
   \<and> snd (sortStarredFirst (heap_with [mk_session ''1'' ''t'', mk_session ''2'' ''t'', mk_session ''3'' ''t''] {ascii ''3''}) 0 0) = 1"
proof -
  let ?h = "heap_with [mk_session ''1'' ''t'', mk_session ''2'' ''t'', mk_session ''3'' ''t''] {ascii ''3''}"
  let ?run = "sortStarredFirst ?h 0 0"
  have valid: "(0::nat) < next_array ?h"
    by (simp add: heap_with_def)
  note part = sortStarredFirst_stable_partition [OF valid surjective_pairing, where starred = 0]
  from part have out: "arrays (fst ?run) (snd ?run)
      = filter (\<lambda>s. id_s s \<in> sets ?h 0) (arrays ?h 0) @ filter (\<lambda>s. id_s s \<notin> sets ?h 0) (arrays ?h 0)"
    by (rule conjunct1)
  from part valid have same: "arrays (fst ?run) 0 = arrays ?h 0"
    by blast
  have addr: "snd ?run = 1"
    by (simp add: sortStarredFirst_def spread_def new_array_def Array_sort_def heap_with_def)
  show ?thesis
    using out same valid addr by (simp add: heap_with_def mk_session_def ascii_def)
qed

section \<open>Properties of useVersion\<close>

text \<open>
  C7. When the version fetch is rejected, the promise chain of \<open>doCheck\<close> ends fulfilled, so
  no rejection escapes, and the state of the hook is what it was: \<open>versionInfo\<close> keeps its
  last value, and the hook has no field through which an error could reach the user.
\<close>

theorem doCheck_swallows_rejection:
  "doCheck (Rejected reason) st = (Fulfilled (), st)"
  by (simp add: doCheck_def promise_then_def promise_catch_def)

text \<open>
  A fulfilled fetch, for comparison, stores the new value while the hook is mounted.
\<close>

lemma doCheck_fulfilled:
  "doCheck (Fulfilled info) st = (Fulfilled (), if mounted st then setVersionInfo info st else st)"
  by (simp add: doCheck_def promise_then_def promise_catch_def)

text \<open>
  While no successful response arrives, the page is not reloaded, \<open>start\<close> keeps its value,
  and the flag is set only while the timer is live.
\<close>

lemma step_no_ok_inv:
  "ev \<noteq> Response Ok \<Longrightarrow> \<not> reloaded st \<Longrightarrow> polling st \<or> \<not> updating st \<Longrightarrow>
   \<not> reloaded (step st ev) \<and> (polling (step st ev) \<or> \<not> updating (step st ev)) \<and> start (step st ev) = start st"
  by (cases ev) (auto simp: step_def poll_tick_def poll_response_def setUpdating_def split: response.splits)

lemma run_no_ok_inv:
  "Response Ok \<notin> set evs \<Longrightarrow> \<not> reloaded st \<Longrightarrow> polling st \<or> \<not> updating st \<Longrightarrow>
   \<not> reloaded (run evs st) \<and> (polling (run evs st) \<or> \<not> updating (run evs st)) \<and> start (run evs st) = start st"
proof (induction evs arbitrary: st)
  case Nil
  then show ?case by (simp add: run_def)
next
  case (Cons ev evs)
  from Cons.prems have "ev \<noteq> Response Ok" by auto
  from step_no_ok_inv[OF this Cons.prems(2,3)] Cons.IH[of "step st ev"] Cons.prems(1)
  show ?case by (simp add: run_def)
qed

text \<open>
  Once the timer is cleared, only a successful response could change anything, and no
  request is issued.
\<close>

lemma step_quiet:
  "ev \<noteq> Response Ok \<Longrightarrow> quiet st \<Longrightarrow> quiet (step st ev) \<and> requests (step st ev) = requests st"
  by (cases ev) (auto simp: quiet_def step_def poll_response_def split: response.splits)

lemma run_quiet:
  "Response Ok \<notin> set evs \<Longrightarrow> quiet st \<Longrightarrow> quiet (run evs st) \<and> requests (run evs st) = requests st"
proof (induction evs arbitrary: st)
  case Nil
  then show ?case by (simp add: run_def)
next
  case (Cons ev evs)
  from Cons.prems have "ev \<noteq> Response Ok" by auto
  from step_quiet[OF this Cons.prems(2)] Cons.IH[of "step st ev"] Cons.prems(1)
  show ?case by (simp add: run_def)
qed

lemma run_append: "run (xs @ ys) st = run ys (run xs st)"
  by (simp add: run_def)

text \<open>
  When the trigger has resolved, the poll does time out. Let the trigger have resolved at
  time \<open>t0\<close>, on a page not yet reloaded. Let any events follow, none of them a successful
  readiness response, and then let the timer fire at a time more than 90000 ms after
  \<open>t0\<close>. Then the timer is cleared, the \<open>updating\<close> flag is cleared and the page is not
  reloaded; and whatever events come later, short of a successful response, it stays so and
  no further readiness request is issued.
\<close>

lemma doUpdate_times_out:
  assumes "\<not> reloaded st" and "Response Ok \<notin> set evs" and "Response Ok \<notin> set later"
    and "90000 < now - t0"
  shows "quiet (run (evs @ [Tick now]) (snd (doUpdate (Fulfilled ()) t0 st)))
    \<and> quiet (run later (run (evs @ [Tick now]) (snd (doUpdate (Fulfilled ()) t0 st))))
    \<and> requests (run later (run (evs @ [Tick now]) (snd (doUpdate (Fulfilled ()) t0 st))))
        = requests (run (evs @ [Tick now]) (snd (doUpdate (Fulfilled ()) t0 st)))"
proof -
  let ?st1 = "snd (doUpdate (Fulfilled ()) t0 st)"
  have init: "\<not> reloaded ?st1" "polling ?st1 \<or> \<not> updating ?st1" "start ?st1 = t0"
    using assms(1) by (simp_all add: doUpdate_def setUpdating_def)
  from run_no_ok_inv[OF assms(2) init(1,2)] init(3)
  have inv: "\<not> reloaded (run evs ?st1)" "polling (run evs ?st1) \<or> \<not> updating (run evs ?st1)"
    "start (run evs ?st1) = t0" by simp_all
  have "quiet (step (run evs ?st1) (Tick now))"
    using inv assms(4) by (auto simp: quiet_def step_def poll_tick_def setUpdating_def)
  then have q: "quiet (run (evs @ [Tick now]) ?st1)"
    by (simp add: run_append) (simp add: run_def)
  from run_quiet[OF assms(3) q] q show ?thesis by simp
qed

text \<open>
  On the ideal schedule with every request failing, the poll makes 45 requests, the last
  one exactly 90 seconds after \<open>start\<close> (the test is \<open>> 90000\<close>), and the 46th firing, at 92
  seconds, ends it.
\<close>

lemma failing_polls_run:
  assumes "polling st" and "\<not> reloaded st" and "start st = t0" and "k \<le> 45"
  shows "run (failing_polls t0 k) st = st\<lparr>requests := requests st + k\<rparr>"
  using assms(4)
proof (induction k)
  case 0
  then show ?case by (simp add: run_def)
next
  case (Suc k)
  then have "run (failing_polls t0 k) st = st\<lparr>requests := requests st + k\<rparr>" by simp
  moreover have "\<not> t0 + 2000 * int (Suc k) - t0 > 90000" using Suc.prems by simp
  ultimately show ?case
    using assms(1-3)
    by (simp add: run_append) (simp add: run_def step_def poll_tick_def poll_response_def)
qed

lemma doUpdate_polls_for_90_seconds:
  assumes "\<not> reloaded st"
  shows "polling (run (failing_polls t0 45) (snd (doUpdate (Fulfilled ()) t0 st)))
    \<and> updating (run (failing_polls t0 45) (snd (doUpdate (Fulfilled ()) t0 st)))
    \<and> requests (run (failing_polls t0 45) (snd (doUpdate (Fulfilled ()) t0 st))) = requests st + 45
    \<and> quiet (run (failing_polls t0 45 @ [Tick (t0 + 2000 * 46)]) (snd (doUpdate (Fulfilled ()) t0 st)))"
proof -
  let ?st1 = "snd (doUpdate (Fulfilled ()) t0 st)"
  have st1: "polling ?st1" "\<not> reloaded ?st1" "start ?st1 = t0" "updating ?st1"
    "requests ?st1 = requests st"
    using assms by (simp_all add: doUpdate_def setUpdating_def)
  have after: "run (failing_polls t0 45) ?st1 = ?st1\<lparr>requests := requests ?st1 + 45\<rparr>"
    using st1(1-3) by (rule failing_polls_run) simp
  have "quiet (step (?st1\<lparr>requests := requests ?st1 + 45\<rparr>) (Tick (t0 + 2000 * 46)))"
    using st1 by (simp add: quiet_def step_def poll_tick_def setUpdating_def)
  then have "quiet (run (failing_polls t0 45 @ [Tick (t0 + 2000 * 46)]) ?st1)"
    by (simp add: run_append after) (simp add: run_def)
  with after st1 show ?thesis by simp
qed

text \<open>
  A concrete run: polls at 2 s and at 90 s fail, the timer fires at 92 s.
\<close>

lemma doUpdate_times_out_run:
  "\<not> reloaded (useVersion (ascii ''1.0.0''))
   \<and> Response Ok \<notin> set [Tick 2000, Response NetworkError, Tick 90000, Response NotOk]
   \<and> Response Ok \<notin> set [Tick 94000, Response NetworkError]
   \<and> (90000::int) < 92000 - 0
   \<and> quiet (run ([Tick 2000, Response NetworkError, Tick 90000, Response NotOk] @ [Tick 92000])
              (snd (doUpdate (Fulfilled ()) 0 (useVersion (ascii ''1.0.0'')))))
   \<and> requests (run [Tick 94000, Response NetworkError]
        (run ([Tick 2000, Response NetworkError, Tick 90000, Response NotOk] @ [Tick 92000])
              (snd (doUpdate (Fulfilled ()) 0 (useVersion (ascii ''1.0.0'')))))) = 2"
proof -
  have a: "\<not> reloaded (useVersion (ascii ''1.0.0''))"
    by (simp add: useVersion_def)
  have b: "Response Ok \<notin> set [Tick 2000, Response NetworkError, Tick 90000, Response NotOk]"
    by simp
  have c: "Response Ok \<notin> set [Tick 94000, Response NetworkError]"
    by simp
  have d: "(90000::int) < 92000 - 0"
    by simp
  have e: "requests (run ([Tick 2000, Response NetworkError, Tick 90000, Response NotOk] @ [Tick 92000])
              (snd (doUpdate (Fulfilled ()) 0 (useVersion (ascii ''1.0.0''))))) = 2"
    by (simp add: run_def step_def poll_tick_def poll_response_def doUpdate_def setUpdating_def
          useVersion_def)
  show ?thesis
    using doUpdate_times_out [OF a b c d] a b c d e by simp
qed

text \<open>
  When the trigger is rejected, \<open>doUpdate\<close> has set the flag and started no timer; no event
  clears the flag.
\<close>

lemma doUpdate_rejected_stuck:
  "updating (run evs (snd (doUpdate (Rejected reason) t0 (useVersion v))))
   \<and> requests (run evs (snd (doUpdate (Rejected reason) t0 (useVersion v)))) = 0"
proof -
  have stuck: "updating st \<and> \<not> polling st \<and> in_flight st = 0 \<and> requests st = 0 \<Longrightarrow>
      updating (run evs st) \<and> requests (run evs st) = 0" for st
  proof (induction evs arbitrary: st)
    case Nil
    then show ?case by (simp add: run_def)
  next
    case (Cons ev evs)
    have "step st ev = st"
      using Cons.prems by (cases ev) (auto simp: step_def)
    with Cons show ?case by (simp add: run_def)
  qed
  show ?thesis
    by (rule stuck) (simp add: doUpdate_def setUpdating_def useVersion_def)
qed

text \<open>
  C8 says that once 90 seconds have passed after the update trigger without a successful
  readiness response, polling stops and the \<open>updating\<close> flag is cleared. The code breaks it
  when the trigger request itself is rejected (the server drops the connection while it
  restarts, say): \<open>doUpdate\<close> awaits \<open>triggerUpdate()\<close> without a \<open>catch\<close>, unlike
  \<open>doCheck\<close> and the poll callback, so its promise is rejected, no timer is started and no
  readiness request is ever made, and after 92 and after 200 seconds the flag is still set.
\<close>

theorem doUpdate_rejected_trigger_keeps_updating:
  "fst (doUpdate (Rejected (ascii ''Failed to fetch'')) 0 (useVersion (ascii ''1.0.0'')))
     = Rejected (ascii ''Failed to fetch'')
   \<and> updating (run [Tick 2000, Tick 92000, Tick 200000]
        (snd (doUpdate (Rejected (ascii ''Failed to fetch'')) 0 (useVersion (ascii ''1.0.0'')))))
   \<and> \<not> polling (snd (doUpdate (Rejected (ascii ''Failed to fetch'')) 0 (useVersion (ascii ''1.0.0''))))
   \<and> requests (run [Tick 2000, Tick 92000, Tick 200000]
        (snd (doUpdate (Rejected (ascii ''Failed to fetch'')) 0 (useVersion (ascii ''1.0.0''))))) = 0"
  by (simp add: run_def step_def doUpdate_def setUpdating_def useVersion_def)

section \<open>Properties of DisconnectOverlay\<close>

text \<open>
  C9. When the state is not disconnected the overlay renders nothing. When it is
  disconnected the overlay renders a tree that displays the text \<open>Retrying now\<close> with an
  ellipsis exactly when \<open>retrySeconds\<close> is zero, and displays the countdown
  \<open>Retrying in Ns\<close> (after a clockwise arrow, and with an ellipsis) when \<open>retrySeconds\<close> is
  positive. The overlay reads nothing but these two values; that a probe is in flight at
  zero is the business of the hook.
\<close>

theorem DisconnectOverlay_retry_text:
  "(\<not> disconnected st \<longrightarrow> DisconnectOverlay st = None)
   \<and> (disconnected st \<longrightarrow>
        (\<exists>tree. DisconnectOverlay st = Some tree
           \<and> (ascii ''Retrying now'' @ [0x2026] \<in> set (texts tree) \<longleftrightarrow> retrySeconds st = 0)
           \<and> (0 < retrySeconds st \<longrightarrow>
                 [0x21BB] @ ascii '' Retrying in '' @ number_to_string (retrySeconds st) @ ascii ''s'' @ [0x2026]
                   \<in> set (texts tree))))"
  by (auto simp: DisconnectOverlay_def div_class_def retry_text_def ascii_def)

text \<open>
  C9 on concrete states: connected; disconnected with 3 seconds to go; disconnected at
  zero.
\<close>

theorem DisconnectOverlay_retry_text_witness:
  "DisconnectOverlay \<lparr>disconnected = False, retrySeconds = 3\<rparr> = None
   \<and> [0x21BB] @ ascii '' Retrying in 3s'' @ [0x2026]
        \<in> set (texts (the (DisconnectOverlay \<lparr>disconnected = True, retrySeconds = 3\<rparr>)))
   \<and> ascii ''Retrying now'' @ [0x2026]
        \<notin> set (texts (the (DisconnectOverlay \<lparr>disconnected = True, retrySeconds = 3\<rparr>)))
   \<and> ascii ''Retrying now'' @ [0x2026]
        \<in> set (texts (the (DisconnectOverlay \<lparr>disconnected = True, retrySeconds = 0\<rparr>)))"
  using DisconnectOverlay_retry_text [of "\<lparr>disconnected = False, retrySeconds = 3\<rparr>"]
    DisconnectOverlay_retry_text [of "\<lparr>disconnected = True, retrySeconds = 3\<rparr>"]
    DisconnectOverlay_retry_text [of "\<lparr>disconnected = True, retrySeconds = 0\<rparr>"]
  by (auto simp: number_to_string.simps ascii_def)

end
